theory Spec2Isabelle
  imports Main
begin

section \<open>Qt value types\<close>

text \<open>
  \<open>QString\<close> is modelled as \<open>string\<close> and \<open>QStringList\<close> as \<open>string list\<close>; a
  character is one 8-bit code unit. \<open>QChar::isSpace\<close> holds for the ASCII control
  characters 9 to 13, the blank, and (within 8 bits) the code points 0x85 and 0xA0.
  \<open>QChar::toLower\<close> maps A..Z and the Latin-1 capitals 0xC0..0xDE (without 0xD7)
  to the letter 32 positions further.
\<close>

definition isSpace :: "char \<Rightarrow> bool" where
  "isSpace c = (of_char c \<in> {9, 10, 11, 12, 13, 32, 133, 160 :: nat})"

definition toLowerChar :: "char \<Rightarrow> char" where
  "toLowerChar c =
     (let n = of_char c :: nat
      in if (65 \<le> n \<and> n \<le> 90) \<or> (192 \<le> n \<and> n \<le> 222 \<and> n \<noteq> 215)
         then char_of (n + 32) else c)"

definition toLower :: "string \<Rightarrow> string" where
  "toLower s = map toLowerChar s"




text \<open>\<open>QString::mid(position)\<close>: the rest of the string, empty beyond its end.\<close>

definition mid :: "string \<Rightarrow> nat \<Rightarrow> string" where
  "mid s position = drop position s"

text \<open>
  \<open>QVariant\<close>, restricted to the three kinds of option values the client passes, and
  the invalid variant that a lookup of a missing key yields. The conversions follow
  Qt 4: a string converts to a bool (false for the empty string, \<open>0\<close> and \<open>false\<close>)
  and to a one-element list, a bool converts to \<open>true\<close>/\<open>false\<close>, and a list converts
  to a string only when it has exactly one element.
\<close>

datatype QVariantType = TInvalid | TBool | TString | TStringList

datatype QVariant = VInvalid | VBool bool | VString string | VStringList "string list"

fun variantType :: "QVariant \<Rightarrow> QVariantType" where
  "variantType VInvalid = TInvalid"
| "variantType (VBool b) = TBool"
| "variantType (VString s) = TString"
| "variantType (VStringList l) = TStringList"

fun canConvert :: "QVariant \<Rightarrow> QVariantType \<Rightarrow> bool" where
  "canConvert (VBool b) t = (t = TBool \<or> t = TString)"
| "canConvert (VString s) t = (t = TString \<or> t = TBool \<or> t = TStringList)"
| "canConvert (VStringList l) t = (t = TStringList \<or> (t = TString \<and> length l = 1))"
| "canConvert VInvalid t = (t = TInvalid)"

fun toBool :: "QVariant \<Rightarrow> bool" where
  "toBool (VBool b) = b"
| "toBool (VString s) =
     (let str = toLower s in \<not> (str = ''0'' \<or> str = ''false'' \<or> str = []))"
| "toBool v = False"

fun toString :: "QVariant \<Rightarrow> string" where
  "toString (VString s) = s"
| "toString (VBool b) = (if b then ''true'' else ''false'')"
| "toString (VStringList l) = (case l of [s] \<Rightarrow> s | _ \<Rightarrow> [])"
| "toString VInvalid = []"

fun toStringList :: "QVariant \<Rightarrow> string list" where
  "toStringList (VStringList l) = l"
| "toStringList (VString s) = [s]"
| "toStringList v = []"

section \<open>Extra command options\<close>

text \<open>
  The enumerators of \<open>BazaarClient::ExtraOptionId\<close> that the client's switches name.
  The keys of the option table are plain integers; \<open>OtherOptionId n\<close> stands for an
  integer that is none of the enumerators (the diff parameter widget inserts 42).
\<close>

datatype ExtraOptionId =
    UseExistingDirCloneOptionId
  | StackedCloneOptionId
  | StandAloneCloneOptionId
  | BindCloneOptionId
  | SwitchCloneOptionId
  | HardLinkCloneOptionId
  | NoTreeCloneOptionId
  | RevisionCloneOptionId
  | AuthorCommitOptionId
  | FixesCommitOptionId
  | LocalCommitOptionId
  | RememberPullOrPushOptionId
  | OverwritePullOrPushOptionId
  | RevisionPullOrPushOptionId
  | LocalPullOptionId
  | UseExistingDirPushOptionId
  | CreatePrefixPushOptionId
  | OtherOptionId int

text \<open>
  \<open>ExtraCommandOptions\<close> maps option ids to variants, one value for each key. The
  order in which the container enumerates its entries is not fixed by the client, so
  the model lists the entries in that order: \<open>keys\<close> is the enumeration of the keys,
  \<open>optionValue\<close> is \<open>operator[]\<close>, which yields the invalid variant for a missing key.
\<close>

type_synonym ExtraCommandOptions = "(ExtraOptionId \<times> QVariant) list"

definition keys :: "ExtraCommandOptions \<Rightarrow> ExtraOptionId list" where
  "keys extraOptions = map fst extraOptions"

definition optionValue :: "ExtraCommandOptions \<Rightarrow> ExtraOptionId \<Rightarrow> QVariant" where
  "optionValue extraOptions iOption =
     (case map_of extraOptions iOption of Some v \<Rightarrow> v | None \<Rightarrow> VInvalid)"

text \<open>
  \<open>Q_ASSERT\<close> is modelled as checked: a failed assertion ends the call with
  \<open>AssertionFailure\<close>.
\<close>

datatype failure = AssertionFailure

fun foreach :: "'a list \<Rightarrow> ('a \<Rightarrow> 's \<Rightarrow> failure + 's) \<Rightarrow> 's \<Rightarrow> failure + 's" where
  "foreach [] body s = Inr s"
| "foreach (x # xs) body s =
     (case body x s of Inl e \<Rightarrow> Inl e | Inr s' \<Rightarrow> foreach xs body s')"

section \<open>Bazaar client: argument lists\<close>

text \<open>
  The two helpers receive the address of the caller's local list, which is never null;
  the model passes the list and returns it extended.
\<close>

definition addBoolArgument :: "QVariant \<Rightarrow> string \<Rightarrow> string list \<Rightarrow> failure + string list" where
  "addBoolArgument optValue optionName arguments =
     (if \<not> canConvert optValue TBool then Inl AssertionFailure
      else if toBool optValue then Inr (arguments @ [optionName])
      else Inr arguments)"

definition addRevisionArgument :: "QVariant \<Rightarrow> string list \<Rightarrow> failure + string list" where
  "addRevisionArgument optValue arguments =
     (if \<not> canConvert optValue TString then Inl AssertionFailure
      else let revision = toString optValue
           in if revision \<noteq> [] then Inr (arguments @ [''-r'', revision])
              else Inr arguments)"

text \<open>
  Each \<open>foreach\<close> loop over the keys is written as its body, a function of the key,
  the value found under it and the arguments collected so far, and the loop itself.
\<close>

definition cloneOption :: "ExtraOptionId \<Rightarrow> QVariant \<Rightarrow> string list \<Rightarrow> failure + string list" where
  "cloneOption iOption iOptValue args =
     (case iOption of
        UseExistingDirCloneOptionId \<Rightarrow> addBoolArgument iOptValue ''--use-existing-dir'' args
      | StackedCloneOptionId \<Rightarrow> addBoolArgument iOptValue ''--stacked'' args
      | StandAloneCloneOptionId \<Rightarrow> addBoolArgument iOptValue ''--standalone'' args
      | BindCloneOptionId \<Rightarrow> addBoolArgument iOptValue ''--bind'' args
      | SwitchCloneOptionId \<Rightarrow> addBoolArgument iOptValue ''--switch'' args
      | HardLinkCloneOptionId \<Rightarrow> addBoolArgument iOptValue ''--hardlink'' args
      | NoTreeCloneOptionId \<Rightarrow> addBoolArgument iOptValue ''--no-tree'' args
      | RevisionCloneOptionId \<Rightarrow> addRevisionArgument iOptValue args
      | _ \<Rightarrow> Inl AssertionFailure)"

definition cloneArguments ::
  "string \<Rightarrow> string \<Rightarrow> ExtraCommandOptions \<Rightarrow> failure + string list" where
  "cloneArguments srcLocation dstLocation extraOptions =
     (case foreach (keys extraOptions)
        (\<lambda>iOption. cloneOption iOption (optionValue extraOptions iOption)) [] of
        Inl e \<Rightarrow> Inl e
      | Inr args \<Rightarrow>
          Inr (args @ [srcLocation] @ (if dstLocation \<noteq> [] then [dstLocation] else [])))"

definition commonOption :: "ExtraOptionId \<Rightarrow> QVariant \<Rightarrow> string list \<Rightarrow> failure + string list" where
  "commonOption iOption iOptValue args =
     (case iOption of
        RememberPullOrPushOptionId \<Rightarrow> addBoolArgument iOptValue ''--remember'' args
      | OverwritePullOrPushOptionId \<Rightarrow> addBoolArgument iOptValue ''--overwrite'' args
      | RevisionPullOrPushOptionId \<Rightarrow> addRevisionArgument iOptValue args
      | _ \<Rightarrow> Inr args)"

definition commonPullOrPushArguments :: "ExtraCommandOptions \<Rightarrow> failure + string list" where
  "commonPullOrPushArguments extraOptions =
     foreach (keys extraOptions)
       (\<lambda>iOption. commonOption iOption (optionValue extraOptions iOption)) []"

definition pullOption :: "ExtraOptionId \<Rightarrow> QVariant \<Rightarrow> string list \<Rightarrow> failure + string list" where
  "pullOption iOption iOptValue args =
     (case iOption of
        RememberPullOrPushOptionId \<Rightarrow> Inr args
      | OverwritePullOrPushOptionId \<Rightarrow> Inr args
      | RevisionPullOrPushOptionId \<Rightarrow> Inr args
      | LocalPullOptionId \<Rightarrow> addBoolArgument iOptValue ''--local'' args
      | _ \<Rightarrow> Inl AssertionFailure)"

definition pullArguments :: "string \<Rightarrow> ExtraCommandOptions \<Rightarrow> failure + string list" where
  "pullArguments srcLocation extraOptions =
     (case commonPullOrPushArguments extraOptions of
        Inl e \<Rightarrow> Inl e
      | Inr common \<Rightarrow>
          (case foreach (keys extraOptions)
             (\<lambda>iOption. pullOption iOption (optionValue extraOptions iOption)) common of
             Inl e \<Rightarrow> Inl e
           | Inr args \<Rightarrow> Inr (if srcLocation \<noteq> [] then args @ [srcLocation] else args)))"

definition pushOption :: "ExtraOptionId \<Rightarrow> QVariant \<Rightarrow> string list \<Rightarrow> failure + string list" where
  "pushOption iOption iOptValue args =
     (case iOption of
        RememberPullOrPushOptionId \<Rightarrow> Inr args
      | OverwritePullOrPushOptionId \<Rightarrow> Inr args
      | RevisionPullOrPushOptionId \<Rightarrow> Inr args
      | UseExistingDirPushOptionId \<Rightarrow> addBoolArgument iOptValue ''--use-existing-dir'' args
      | CreatePrefixPushOptionId \<Rightarrow> addBoolArgument iOptValue ''--create-prefix'' args
      | _ \<Rightarrow> Inl AssertionFailure)"

definition pushArguments :: "string \<Rightarrow> ExtraCommandOptions \<Rightarrow> failure + string list" where
  "pushArguments dstLocation extraOptions =
     (case commonPullOrPushArguments extraOptions of
        Inl e \<Rightarrow> Inl e
      | Inr common \<Rightarrow>
          (case foreach (keys extraOptions)
             (\<lambda>iOption. pushOption iOption (optionValue extraOptions iOption)) common of
             Inl e \<Rightarrow> Inl e
           | Inr args \<Rightarrow> Inr (if dstLocation \<noteq> [] then args @ [dstLocation] else args)))"

text \<open>The inner loop of the commit options over the issue references.\<close>

fun addFixes :: "string list \<Rightarrow> string list \<Rightarrow> string list" where
  "addFixes [] args = args"
| "addFixes (iFix # refs) args =
     addFixes refs (if iFix \<noteq> [] then args @ [''--fixes'', iFix] else args)"

definition commitOption :: "ExtraOptionId \<Rightarrow> QVariant \<Rightarrow> string list \<Rightarrow> failure + string list" where
  "commitOption iOption iOptValue args =
     (case iOption of
        AuthorCommitOptionId \<Rightarrow>
          (if \<not> canConvert iOptValue TString then Inl AssertionFailure
           else let committerInfo = toString iOptValue
                in if committerInfo \<noteq> []
                   then Inr (args @ [''--author='' @ committerInfo])
                   else Inr args)
      | FixesCommitOptionId \<Rightarrow>
          (if \<not> canConvert iOptValue TStringList then Inl AssertionFailure
           else Inr (addFixes (toStringList iOptValue) args))
      | LocalCommitOptionId \<Rightarrow> addBoolArgument iOptValue ''--local'' args
      | _ \<Rightarrow> Inl AssertionFailure)"

definition commitArguments ::
  "string list \<Rightarrow> string \<Rightarrow> ExtraCommandOptions \<Rightarrow> failure + string list" where
  "commitArguments files commitMessageFile extraOptions =
     (case foreach (keys extraOptions)
        (\<lambda>iOption. commitOption iOption (optionValue extraOptions iOption)) [] of
        Inl e \<Rightarrow> Inl e
      | Inr args \<Rightarrow> Inr (args @ [''-F'', commitMessageFile] @ files))"

text \<open>
  \<open>diffArguments\<close> walks the values of the table. \<open>QTC_ASSERT(false, continue;)\<close>
  reports the unexpected kind and goes on with the next value; it never aborts.
\<close>

fun diffOption :: "QVariant \<Rightarrow> string list \<Rightarrow> string list" where
  "diffOption (VString s) args = args @ [s]"
| "diffOption (VStringList l) args = args @ l"
| "diffOption extraOption args = args"

definition diffArguments :: "string list \<Rightarrow> ExtraCommandOptions \<Rightarrow> string list" where
  "diffArguments files extraOptions =
     (let args = foldl (\<lambda>args extraOption. diffOption extraOption args) []
                   (map snd extraOptions)
      in if files \<noteq> [] then args @ files else args)"

definition logArguments :: "string list \<Rightarrow> ExtraCommandOptions \<Rightarrow> string list" where
  "logArguments files extraOptions = diffArguments files extraOptions"

section \<open>Bazaar client: status lines\<close>

definition parseStatusLine :: "string \<Rightarrow> string \<times> string" where
  "parseStatusLine line =
     (if line \<noteq> [] then
        let flagVersion = line ! 0;
            status0 =
              (if flagVersion = CHR ''+'' then ''Versioned''
               else if flagVersion = CHR ''-'' then ''Unversioned''
               else if flagVersion = CHR ''R'' then ''Renamed''
               else if flagVersion = CHR ''?'' then ''Unknown''
               else if flagVersion = CHR ''X'' then ''Nonexistent''
               else if flagVersion = CHR ''C'' then ''Conflict''
               else if flagVersion = CHR ''P'' then ''PendingMerge''
               else []);
            lineLength = length line;
            status1 =
              (if lineLength \<ge> 2 then
                 let flagContents = line ! 1
                 in if flagContents = CHR ''N'' then ''Created''
                    else if flagContents = CHR ''D'' then ''Deleted''
                    else if flagContents = CHR ''K'' then ''KindChanged''
                    else if flagContents = CHR ''M'' then ''Modified''
                    else status0
               else status0);
            status2 =
              (if lineLength \<ge> 3 then
                 let flagExec = line ! 2
                 in if flagExec = CHR ''*'' then ''ExecuteBitChanged'' else status1
               else status1)
        in (status2, mid line 4)
      else ([], []))"

section \<open>Bazaar client: branch configuration\<close>

text \<open>
  The two \<open>QRegExp\<close> patterns of the branch query use literals, the classes \<open>\s\<close> and
  \<open>.\<close>, the quantifiers \<open>*\<close> and \<open>+\<close>, one capturing group and the anchor \<open>$\<close>. The
  matcher below covers this fragment: quantifiers are greedy and give back characters
  one at a time when the rest of the pattern does not match. A successful match
  returns the text consumed by each item of the pattern.
\<close>

datatype charClass = Lit char | WhiteSpace | AnyChar

fun accepts :: "charClass \<Rightarrow> char \<Rightarrow> bool" where
  "accepts (Lit a) c = (c = a)"
| "accepts WhiteSpace c = isSpace c"
| "accepts AnyChar c = True"

datatype rxItem =
    One charClass
  | ZeroOrMore charClass
  | OneOrMore charClass
  | Group rxItem
  | EndOfInput

fun matchHere :: "rxItem list \<Rightarrow> string \<Rightarrow> string list option" where
  "matchHere [] s = Some []"
| "matchHere (EndOfInput # r) s =
     (if s = [] then map_option ((#) []) (matchHere r s) else None)"
| "matchHere (One c # r) [] = None"
| "matchHere (One c # r) (x # xs) =
     (if accepts c x then map_option ((#) [x]) (matchHere r xs) else None)"
| "matchHere (ZeroOrMore c # r) [] = map_option ((#) []) (matchHere r [])"
| "matchHere (ZeroOrMore c # r) (x # xs) =
     (if accepts c x then
        (case matchHere (ZeroOrMore c # r) xs of
           Some (w # ws) \<Rightarrow> Some ((x # w) # ws)
         | _ \<Rightarrow> map_option ((#) []) (matchHere r (x # xs)))
      else map_option ((#) []) (matchHere r (x # xs)))"
| "matchHere (OneOrMore c # r) [] = None"
| "matchHere (OneOrMore c # r) (x # xs) =
     (if accepts c x then
        (case matchHere (ZeroOrMore c # r) xs of
           Some (w # ws) \<Rightarrow> Some ((x # w) # ws)
         | _ \<Rightarrow> None)
      else None)"
| "matchHere (Group i # r) s = matchHere (i # r) s"

text \<open>
  \<open>QRegExp::indexIn\<close> tries the offsets from the left; the model returns the offset of
  the first match with the texts of the items, and \<open>None\<close> for the source's \<open>-1\<close>.
\<close>

fun indexIn :: "rxItem list \<Rightarrow> string \<Rightarrow> (nat \<times> string list) option" where
  "indexIn rx [] = map_option (Pair 0) (matchHere rx [])"
| "indexIn rx (x # xs) =
     (case matchHere rx (x # xs) of
        Some ws \<Rightarrow> Some (0, ws)
      | None \<Rightarrow> map_option (\<lambda>(i, ws). (Suc i, ws)) (indexIn rx xs))"

fun isGroup :: "rxItem \<Rightarrow> bool" where
  "isGroup (Group i) = True"
| "isGroup i = False"

text \<open>\<open>cap(1)\<close>: the text of the capturing group.\<close>

definition cap1 :: "rxItem list \<Rightarrow> string list \<Rightarrow> string" where
  "cap1 rx ws = concat (map snd (filter (\<lambda>(i, w). isGroup i) (zip rx ws)))"

definition literal :: "string \<Rightarrow> rxItem list" where
  "literal s = map (\<lambda>c. One (Lit c)) s"

text \<open>\<^verbatim>\<open>bound_location\s*=\s*(.+)$\<close>\<close>

definition branchLocationRx :: "rxItem list" where
  "branchLocationRx =
     literal ''bound_location'' @
     [ZeroOrMore WhiteSpace, One (Lit CHR ''=''), ZeroOrMore WhiteSpace,
      Group (OneOrMore AnyChar), EndOfInput]"

text \<open>\<^verbatim>\<open>bound\s*=\s*(.+)$\<close>\<close>

definition isBranchBoundRx :: "rxItem list" where
  "isBranchBoundRx =
     literal ''bound'' @
     [ZeroOrMore WhiteSpace, One (Lit CHR ''=''), ZeroOrMore WhiteSpace,
      Group (OneOrMore AnyChar), EndOfInput]"


text \<open>
  One pass of the loop body over a line that was read: the first pattern is tried
  first, the second only when the first does not match.
\<close>

definition scanLine :: "string \<Rightarrow> string \<times> string \<Rightarrow> string \<times> string" where
  "scanLine line st =
     (case indexIn branchLocationRx line of
        Some (i, ws) \<Rightarrow> (cap1 branchLocationRx ws, snd st)
      | None \<Rightarrow>
          (case indexIn isBranchBoundRx line of
             Some (i, ws) \<Rightarrow> (fst st, cap1 isBranchBoundRx ws)
           | None \<Rightarrow> st))"

text \<open>
  The \<open>while\<close> loop over the text stream. The stream is the list of lines not read
  yet; the loop returns it together with the two strings.
\<close>

fun scanLoop :: "string list \<Rightarrow> string \<times> string \<Rightarrow> string list \<times> string \<times> string" where
  "scanLoop [] st = ([], st)"
| "scanLoop (line # ts) st =
     (if fst st = [] \<or> snd st = [] then scanLoop ts (scanLine line st)
      else (line # ts, st))"



section \<open>Make step\<close>

type_synonym Environment = "(string \<times> string) list"

record BuildConfiguration =
  environment :: Environment

record ToolChain =
  makeCommand :: "Environment \<Rightarrow> string"

text \<open>
  What the step reads from its surroundings: its own build configuration, the active
  build configuration of its target, and the C++ tool chain of the target's kit. Each
  of the three pointers may be null.
\<close>

record StepContext =
  buildConfiguration :: "BuildConfiguration option"
  activeBuildConfiguration :: "BuildConfiguration option"
  toolChain :: "ToolChain option"

record MakeStep =
  m_buildTargets :: "string list"
  m_availableTargets :: "string list"
  m_makeArguments :: string
  m_makeCommand :: string
  m_clean :: bool

definition effectiveMakeCommand :: "MakeStep \<Rightarrow> StepContext \<Rightarrow> string" where
  "effectiveMakeCommand step ctx =
     (if m_makeCommand step \<noteq> [] then m_makeCommand step
      else
        let bc = (case buildConfiguration ctx of
                    None \<Rightarrow> activeBuildConfiguration ctx
                  | Some b \<Rightarrow> Some b);
            tc = toolChain ctx
        in case (bc, tc) of
             (Some b, Some t) \<Rightarrow> makeCommand t (environment b)
           | _ \<Rightarrow> [])"

definition buildsTarget :: "MakeStep \<Rightarrow> string \<Rightarrow> bool" where
  "buildsTarget step target = (target \<in> set (m_buildTargets step))"

text \<open>\<open>QList::removeOne\<close> removes the first occurrence of the value.\<close>

fun removeOne :: "string \<Rightarrow> string list \<Rightarrow> string list" where
  "removeOne t [] = []"
| "removeOne t (x # xs) = (if x = t then xs else x # removeOne t xs)"

definition setBuildTarget :: "string \<Rightarrow> bool \<Rightarrow> MakeStep \<Rightarrow> MakeStep" where
  "setBuildTarget target on step =
     (let old = m_buildTargets step;
          old' = (if on \<and> target \<notin> set old then old @ [target]
                  else if \<not> on \<and> target \<in> set old then removeOne target old
                  else old)
      in step\<lparr>m_buildTargets := old'\<rparr>)"

section \<open>Specification-level definitions\<close>

text \<open>
  The definitions of this section restate what the specification says about the
  results; the theorems below compare them with the functions above.
\<close>

subsection \<open>Argument lists\<close>

text \<open>The flag of each boolean clone option.\<close>

definition cloneFlag :: "ExtraOptionId \<Rightarrow> string option" where
  "cloneFlag = map_of
     [(UseExistingDirCloneOptionId, ''--use-existing-dir''),
      (StackedCloneOptionId, ''--stacked''),
      (StandAloneCloneOptionId, ''--standalone''),
      (BindCloneOptionId, ''--bind''),
      (SwitchCloneOptionId, ''--switch''),
      (HardLinkCloneOptionId, ''--hardlink''),
      (NoTreeCloneOptionId, ''--no-tree'')]"

text \<open>
  The tokens one clone option stands for: its flag when a boolean option is true,
  \<open>-r\<close> and the revision when the revision is not empty.
\<close>

fun cloneTokens :: "ExtraOptionId \<times> QVariant \<Rightarrow> string list" where
  "cloneTokens (k, VBool b) =
     (case cloneFlag k of Some flag \<Rightarrow> if b then [flag] else [] | None \<Rightarrow> [])"
| "cloneTokens (k, VString revision) =
     (if k = RevisionCloneOptionId \<and> revision \<noteq> [] then [''-r'', revision] else [])"
| "cloneTokens (k, v) = []"

text \<open>A recognized clone option with the kind of value it expects.\<close>

definition cloneTagged :: "ExtraOptionId \<times> QVariant \<Rightarrow> bool" where
  "cloneTagged kv =
     (case cloneFlag (fst kv) of
        Some flag \<Rightarrow> variantType (snd kv) = TBool
      | None \<Rightarrow> fst kv = RevisionCloneOptionId \<and> variantType (snd kv) = TString)"

text \<open>
  The tokens one commit option stands for: \<open>--author=\<close> with the author when it is not
  empty, a \<open>--fixes\<close> pair for each non-empty reference, \<open>--local\<close> when the boolean is
  true.
\<close>

fun commitTokens :: "ExtraOptionId \<times> QVariant \<Rightarrow> string list" where
  "commitTokens (AuthorCommitOptionId, VString author) =
     (if author \<noteq> [] then [''--author='' @ author] else [])"
| "commitTokens (FixesCommitOptionId, VStringList refs) =
     concat (map (\<lambda>ref. [''--fixes'', ref]) (filter (\<lambda>ref. ref \<noteq> []) refs))"
| "commitTokens (LocalCommitOptionId, VBool b) = (if b then [''--local''] else [])"
| "commitTokens (k, v) = []"

text \<open>An author string, a list of references or a local boolean.\<close>

definition commitTagged :: "ExtraOptionId \<times> QVariant \<Rightarrow> bool" where
  "commitTagged kv =
     (fst kv = AuthorCommitOptionId \<and> variantType (snd kv) = TString \<or>
      fst kv = FixesCommitOptionId \<and> variantType (snd kv) = TStringList \<or>
      fst kv = LocalCommitOptionId \<and> variantType (snd kv) = TBool)"

text \<open>
  The four builders with an option table, as one function of the operation and its
  positional arguments; the option ids each operation recognizes; the kind of value
  each option id expects.
\<close>

datatype operation =
    Clone string string
  | Pull string
  | Push string
  | Commit "string list" string

fun buildArguments :: "operation \<Rightarrow> ExtraCommandOptions \<Rightarrow> failure + string list" where
  "buildArguments (Clone srcLocation dstLocation) extraOptions =
     cloneArguments srcLocation dstLocation extraOptions"
| "buildArguments (Pull srcLocation) extraOptions = pullArguments srcLocation extraOptions"
| "buildArguments (Push dstLocation) extraOptions = pushArguments dstLocation extraOptions"
| "buildArguments (Commit files commitMessageFile) extraOptions =
     commitArguments files commitMessageFile extraOptions"

fun recognized :: "operation \<Rightarrow> ExtraOptionId set" where
  "recognized (Clone srcLocation dstLocation) =
     {UseExistingDirCloneOptionId, StackedCloneOptionId, StandAloneCloneOptionId,
      BindCloneOptionId, SwitchCloneOptionId, HardLinkCloneOptionId, NoTreeCloneOptionId,
      RevisionCloneOptionId}"
| "recognized (Pull srcLocation) =
     {RememberPullOrPushOptionId, OverwritePullOrPushOptionId, RevisionPullOrPushOptionId,
      LocalPullOptionId}"
| "recognized (Push dstLocation) =
     {RememberPullOrPushOptionId, OverwritePullOrPushOptionId, RevisionPullOrPushOptionId,
      UseExistingDirPushOptionId, CreatePrefixPushOptionId}"
| "recognized (Commit files commitMessageFile) =
     {AuthorCommitOptionId, FixesCommitOptionId, LocalCommitOptionId}"

fun expectedTag :: "ExtraOptionId \<Rightarrow> QVariantType option" where
  "expectedTag RevisionCloneOptionId = Some TString"
| "expectedTag RevisionPullOrPushOptionId = Some TString"
| "expectedTag AuthorCommitOptionId = Some TString"
| "expectedTag FixesCommitOptionId = Some TStringList"
| "expectedTag (OtherOptionId n) = None"
| "expectedTag k = Some TBool"

text \<open>A string or a list of strings, flattened; any other value adds nothing.\<close>

fun flattenOption :: "QVariant \<Rightarrow> string list" where
  "flattenOption (VString s) = [s]"
| "flattenOption (VStringList l) = l"
| "flattenOption v = []"

subsection \<open>Status lines\<close>

definition versionFlag :: "char \<Rightarrow> string option" where
  "versionFlag = map_of
     [(CHR ''+'', ''Versioned''), (CHR ''-'', ''Unversioned''), (CHR ''R'', ''Renamed''),
      (CHR ''?'', ''Unknown''), (CHR ''X'', ''Nonexistent''), (CHR ''C'', ''Conflict''),
      (CHR ''P'', ''PendingMerge'')]"

definition contentFlag :: "char \<Rightarrow> string option" where
  "contentFlag = map_of
     [(CHR ''N'', ''Created''), (CHR ''D'', ''Deleted''), (CHR ''K'', ''KindChanged''),
      (CHR ''M'', ''Modified'')]"

text \<open>
  The cascade of the three flag positions of a non-empty line: the version flag, over
  it a content flag at position 1, over both a star at position 2.
\<close>

definition decodeFlags :: "string \<Rightarrow> string" where
  "decodeFlags line =
     (let byVersion = (case versionFlag (line ! 0) of Some s \<Rightarrow> s | None \<Rightarrow> []);
          byContent = (if 2 \<le> length line
                       then (case contentFlag (line ! 1) of Some s \<Rightarrow> s | None \<Rightarrow> byVersion)
                       else byVersion)
      in if 3 \<le> length line \<and> line ! 2 = CHR ''*'' then ''ExecuteBitChanged''
         else byContent)"

subsection \<open>Branch configuration\<close>

text \<open>The two strings the scan of a file's lines ends with.\<close>

definition scannedLocation :: "string list \<Rightarrow> string" where
  "scannedLocation content = fst (snd (scanLoop content ([], [])))"

definition scannedBound :: "string list \<Rightarrow> string" where
  "scannedBound content = snd (snd (scanLoop content ([], [])))"

text \<open>
  The value a line gives for each key: a \<open>bound_location\<close> line is one the first
  pattern matches; a \<open>bound\<close> line is one the second pattern matches and the first
  does not.
\<close>

definition locationValue :: "string \<Rightarrow> string option" where
  "locationValue line =
     map_option (\<lambda>(i, ws). cap1 branchLocationRx ws) (indexIn branchLocationRx line)"

definition boundValue :: "string \<Rightarrow> string option" where
  "boundValue line =
     (if indexIn branchLocationRx line \<noteq> None then None
      else map_option (\<lambda>(i, ws). cap1 isBranchBoundRx ws) (indexIn isBranchBoundRx line))"

text \<open>
  The value of the first matching line of a list, empty when no line matches; the
  value of the last matching line, \<open>d\<close> when no line matches; whether some line
  matches.
\<close>

definition firstValue :: "(string \<Rightarrow> string option) \<Rightarrow> string list \<Rightarrow> string" where
  "firstValue f ls = (case List.map_filter f ls of [] \<Rightarrow> [] | v # vs \<Rightarrow> v)"

definition lastValue :: "string \<Rightarrow> (string \<Rightarrow> string option) \<Rightarrow> string list \<Rightarrow> string" where
  "lastValue d f ls = (case rev (List.map_filter f ls) of [] \<Rightarrow> d | v # vs \<Rightarrow> v)"

definition found :: "(string \<Rightarrow> string option) \<Rightarrow> string list \<Rightarrow> bool" where
  "found f ls = (List.map_filter f ls \<noteq> [])"


text \<open>The items of a pattern that consume at least one character.\<close>

fun nonEmptyItem :: "rxItem \<Rightarrow> bool" where
  "nonEmptyItem (One c) = True"
| "nonEmptyItem (OneOrMore c) = True"
| "nonEmptyItem (Group i) = nonEmptyItem i"
| "nonEmptyItem i = False"

section \<open>Properties of the argument lists\<close>

lemma foreach_tokens:
  assumes "\<And>x acc. x \<in> set xs \<Longrightarrow> body x acc = Inr (acc @ g x)"
  shows "foreach xs body acc = Inr (acc @ concat (map g xs))"
  using assms by (induction xs arbitrary: acc) simp_all

lemma optionValue_distinct:
  "distinct (map fst extraOptions) \<Longrightarrow> (k, v) \<in> set extraOptions \<Longrightarrow>
   optionValue extraOptions k = v"
  by (simp add: optionValue_def)

lemma foreach_options:
  assumes d: "distinct (map fst extraOptions)"
    and step: "\<And>k v acc. (k, v) \<in> set extraOptions \<Longrightarrow> body k v acc = Inr (acc @ g (k, v))"
  shows "foreach (keys extraOptions) (\<lambda>k. body k (optionValue extraOptions k)) acc =
         Inr (acc @ concat (map g extraOptions))"
proof -
  have "foreach (keys extraOptions) (\<lambda>k. body k (optionValue extraOptions k)) acc =
        Inr (acc @ concat (map (\<lambda>k. g (k, optionValue extraOptions k)) (keys extraOptions)))"
  proof (rule foreach_tokens)
    fix k acc assume "k \<in> set (keys extraOptions)"
    then obtain v where kv: "(k, v) \<in> set extraOptions"
      by (auto simp: keys_def)
    with d have "optionValue extraOptions k = v" by (rule optionValue_distinct)
    with step [OF kv] show "body k (optionValue extraOptions k) acc =
      Inr (acc @ g (k, optionValue extraOptions k))" by simp
  qed
  moreover have "map (\<lambda>k. g (k, optionValue extraOptions k)) (keys extraOptions) =
                 map g extraOptions"
    using d by (auto simp: keys_def optionValue_distinct)
  ultimately show ?thesis by simp
qed

lemma addFixes_tokens:
  "addFixes refs args =
     args @ concat (map (\<lambda>ref. [''--fixes'', ref]) (filter (\<lambda>ref. ref \<noteq> []) refs))"
  by (induction refs arbitrary: args) simp_all

lemma commitOption_tokens:
  "commitTagged (k, v) \<Longrightarrow> commitOption k v args = Inr (args @ commitTokens (k, v))"
  by (cases k; cases v)
     (simp_all add: commitOption_def commitTagged_def addBoolArgument_def addFixes_tokens)

text \<open>
  Claim C1. For a table of commit options without duplicate keys that holds only an
  author string, a list of issue references and a local boolean, \<open>commitArguments\<close>
  returns, for each option in the order the table enumerates them, \<open>--author=\<close> with
  the author if it is not empty, a \<open>--fixes\<close> pair for every non-empty reference and
  \<open>--local\<close> if the boolean is true, then \<open>-F\<close>, the message file and the files. With
  the author enumerated before the references, the author
  \<open>Jane <j@x.com>\<close>, the references 123 and 456, the file \<open>a.txt\<close> and the message
  file \<open>msg.txt\<close> give the list of the specification's example.
\<close>

theorem commitArguments_tokens:
  "(distinct (map fst extraOptions) \<and> list_all commitTagged extraOptions \<longrightarrow>
      commitArguments files commitMessageFile extraOptions =
        Inr (concat (map commitTokens extraOptions) @ [''-F'', commitMessageFile] @ files)) \<and>
   commitArguments [''a.txt''] ''msg.txt''
     [(AuthorCommitOptionId, VString ''Jane <j@x.com>''),
      (FixesCommitOptionId, VStringList [''123'', ''456''])] =
     Inr [''--author=Jane <j@x.com>'', ''--fixes'', ''123'', ''--fixes'', ''456'',
          ''-F'', ''msg.txt'', ''a.txt'']"
proof (intro conjI impI)
  assume h: "distinct (map fst extraOptions) \<and> list_all commitTagged extraOptions"
  then have "foreach (keys extraOptions)
               (\<lambda>k. commitOption k (optionValue extraOptions k)) [] =
             Inr ([] @ concat (map commitTokens extraOptions))"
    by (intro foreach_options commitOption_tokens) (auto simp: list_all_iff)
  then show "commitArguments files commitMessageFile extraOptions =
        Inr (concat (map commitTokens extraOptions) @ [''-F'', commitMessageFile] @ files)"
    by (simp add: commitArguments_def)
next
  show "commitArguments [''a.txt''] ''msg.txt''
     [(AuthorCommitOptionId, VString ''Jane <j@x.com>''),
      (FixesCommitOptionId, VStringList [''123'', ''456''])] =
     Inr [''--author=Jane <j@x.com>'', ''--fixes'', ''123'', ''--fixes'', ''456'',
          ''-F'', ''msg.txt'', ''a.txt'']"
    by (simp add: commitArguments_def commitOption_def keys_def optionValue_def)
qed

theorem commitArguments_tokens_witness:
  "commitArguments [''x.c'', ''y.c''] ''m''
     [(LocalCommitOptionId, VBool True),
      (FixesCommitOptionId, VStringList [''lp:1'', [], ''lp:2'']),
      (AuthorCommitOptionId, VString [])] =
     Inr [''--local'', ''--fixes'', ''lp:1'', ''--fixes'', ''lp:2'', ''-F'', ''m'',
          ''x.c'', ''y.c'']"
  using commitArguments_tokens [of "[(LocalCommitOptionId, VBool True),
      (FixesCommitOptionId, VStringList [''lp:1'', [], ''lp:2'']),
      (AuthorCommitOptionId, VString [])]" "[''x.c'', ''y.c'']" "''m''"]
  by (simp add: commitTagged_def)

lemma cloneOption_tokens:
  "cloneTagged (k, v) \<Longrightarrow> cloneOption k v args = Inr (args @ cloneTokens (k, v))"
  by (cases k; cases v)
     (simp_all add: cloneOption_def cloneTagged_def cloneFlag_def addBoolArgument_def
        addRevisionArgument_def)

text \<open>
  Claim C6. For a table of clone options without duplicate keys in which every option
  is a clone option with the kind of value it expects, \<open>cloneArguments\<close> returns, for
  each option in the order the table enumerates them, the flag of a boolean option
  that is true (nothing for one that is false) and \<open>-r\<close> with the revision when it is
  not empty; the source location follows, and the destination location last if it is
  not empty. With the stacked option enumerated before the revision, the stacked
  option true, the revision 42, the source A and the destination B give the list of
  the specification's example.
\<close>

theorem cloneArguments_tokens:
  "(distinct (map fst extraOptions) \<and> list_all cloneTagged extraOptions \<longrightarrow>
      cloneArguments srcLocation dstLocation extraOptions =
        Inr (concat (map cloneTokens extraOptions) @
             srcLocation # (if dstLocation = [] then [] else [dstLocation]))) \<and>
   cloneArguments ''A'' ''B''
     [(StackedCloneOptionId, VBool True), (RevisionCloneOptionId, VString ''42'')] =
     Inr [''--stacked'', ''-r'', ''42'', ''A'', ''B'']"
proof (intro conjI impI)
  assume h: "distinct (map fst extraOptions) \<and> list_all cloneTagged extraOptions"
  then have "foreach (keys extraOptions)
               (\<lambda>k. cloneOption k (optionValue extraOptions k)) [] =
             Inr ([] @ concat (map cloneTokens extraOptions))"
    by (intro foreach_options cloneOption_tokens) (auto simp: list_all_iff)
  then show "cloneArguments srcLocation dstLocation extraOptions =
        Inr (concat (map cloneTokens extraOptions) @
             srcLocation # (if dstLocation = [] then [] else [dstLocation]))"
    by (simp add: cloneArguments_def)
next
  show "cloneArguments ''A'' ''B''
     [(StackedCloneOptionId, VBool True), (RevisionCloneOptionId, VString ''42'')] =
     Inr [''--stacked'', ''-r'', ''42'', ''A'', ''B'']"
    by (simp add: cloneArguments_def cloneOption_def keys_def optionValue_def
        addBoolArgument_def addRevisionArgument_def)
qed

theorem cloneArguments_tokens_witness:
  "cloneArguments ''lp:proj'' []
     [(RevisionCloneOptionId, VString ''7''), (BindCloneOptionId, VBool False),
      (NoTreeCloneOptionId, VBool True)] =
     Inr [''-r'', ''7'', ''--no-tree'', ''lp:proj'']"
  using cloneArguments_tokens [of "[(RevisionCloneOptionId, VString ''7''),
      (BindCloneOptionId, VBool False), (NoTreeCloneOptionId, VBool True)]" "''lp:proj''" "[]"]
  by (simp add: cloneTagged_def cloneFlag_def)

lemma diffOption_flatten: "diffOption v args = args @ flattenOption v"
  by (cases v) simp_all

lemma foldl_diffOption:
  "foldl (\<lambda>args v. diffOption v args) acc vs = acc @ concat (map flattenOption vs)"
  by (induction vs arbitrary: acc) (simp_all add: diffOption_flatten)

text \<open>
  Claim C9. \<open>logArguments\<close> returns the same list as \<open>diffArguments\<close> for every file
  list and every option table, and that list is the values of the table, each string
  and each string list flattened in the order of enumeration, followed by the files.
\<close>

theorem logArguments_diffArguments:
  "logArguments files extraOptions = diffArguments files extraOptions \<and>
   diffArguments files extraOptions =
     concat (map flattenOption (map snd extraOptions)) @ files"
  by (simp add: logArguments_def diffArguments_def foldl_diffOption Let_def)

theorem logArguments_diffArguments_witness:
  "logArguments [''a.c'']
     [(OtherOptionId 42, VString ''--diff-options=-w -B''),
      (OtherOptionId 7, VStringList [''-r'', ''3''])] =
     [''--diff-options=-w -B'', ''-r'', ''3'', ''a.c'']"
  using logArguments_diffArguments
    [of "[''a.c'']" "[(OtherOptionId 42, VString ''--diff-options=-w -B''),
                      (OtherOptionId 7, VStringList [''-r'', ''3''])]"]
  by simp

lemma foreach_fails:
  assumes "x \<in> set xs" and "\<And>s. body x s = Inl AssertionFailure"
  shows "foreach xs body s = Inl AssertionFailure"
  using assms(1)
proof (induction xs arbitrary: s)
  case Nil
  then show ?case by simp
next
  case (Cons a xs)
  show ?case
  proof (cases "body a s")
    case (Inl e)
    then show ?thesis by (cases e) simp
  next
    case (Inr s')
    with Cons assms(2) show ?thesis by auto
  qed
qed

lemma foreach_succeeds:
  assumes "\<And>x s. x \<in> set xs \<Longrightarrow> \<exists>s'. body x s = Inr s'"
  shows "\<exists>s'. foreach xs body s = Inr s'"
  using assms
proof (induction xs arbitrary: s)
  case Nil
  then show ?case by simp
next
  case (Cons a xs)
  from Cons.prems [of a s] obtain s' where "body a s = Inr s'" by auto
  moreover from Cons.IH [of s'] Cons.prems obtain s'' where "foreach xs body s' = Inr s''"
    by auto
  ultimately show ?case by simp
qed

lemma optionValue_in_set:
  assumes "k \<in> set (keys extraOptions)"
  shows "(k, optionValue extraOptions k) \<in> set extraOptions"
proof -
  from assms obtain v where "map_of extraOptions k = Some v"
    by (auto simp: keys_def dest: weak_map_of_SomeI)
  then show ?thesis
    by (auto simp: optionValue_def dest: map_of_SomeD)
qed

lemma failure_only: "(r :: failure + 'a) = Inl AssertionFailure \<or> (\<exists>a. r = Inr a)"
proof (cases r)
  case (Inl e)
  then show ?thesis by (cases e) simp
next
  case (Inr a)
  then show ?thesis by simp
qed

lemma cloneOption_unrecognized:
  "k \<notin> recognized (Clone a b) \<Longrightarrow> cloneOption k v s = Inl AssertionFailure"
  by (cases k) (simp_all add: cloneOption_def)

lemma pullOption_unrecognized:
  "k \<notin> recognized (Pull a) \<Longrightarrow> pullOption k v s = Inl AssertionFailure"
  by (cases k) (simp_all add: pullOption_def)

lemma pushOption_unrecognized:
  "k \<notin> recognized (Push a) \<Longrightarrow> pushOption k v s = Inl AssertionFailure"
  by (cases k) (simp_all add: pushOption_def)

lemma commitOption_unrecognized:
  "k \<notin> recognized (Commit a b) \<Longrightarrow> commitOption k v s = Inl AssertionFailure"
  by (cases k) (simp_all add: commitOption_def)

lemma unrecognized_fails:
  assumes "k \<in> set (keys extraOptions)" and "k \<notin> recognized operation"
  shows "buildArguments operation extraOptions = Inl AssertionFailure"
proof (cases operation)
  case (Clone a b)
  with assms have "foreach (keys extraOptions)
      (\<lambda>k. cloneOption k (optionValue extraOptions k)) [] = Inl AssertionFailure"
    by (intro foreach_fails [of k] cloneOption_unrecognized [of _ a b]) auto
  with Clone show ?thesis by (simp add: cloneArguments_def)
next
  case (Pull a)
  from assms Pull have "\<And>s. foreach (keys extraOptions)
      (\<lambda>k. pullOption k (optionValue extraOptions k)) s = Inl AssertionFailure"
    by (intro foreach_fails [of k] pullOption_unrecognized [of _ a]) auto
  with Pull show ?thesis
    using failure_only [of "commonPullOrPushArguments extraOptions"]
    by (auto simp: pullArguments_def)
next
  case (Push a)
  from assms Push have "\<And>s. foreach (keys extraOptions)
      (\<lambda>k. pushOption k (optionValue extraOptions k)) s = Inl AssertionFailure"
    by (intro foreach_fails [of k] pushOption_unrecognized [of _ a]) auto
  with Push show ?thesis
    using failure_only [of "commonPullOrPushArguments extraOptions"]
    by (auto simp: pushArguments_def)
next
  case (Commit a b)
  with assms have "foreach (keys extraOptions)
      (\<lambda>k. commitOption k (optionValue extraOptions k)) [] = Inl AssertionFailure"
    by (intro foreach_fails [of k] commitOption_unrecognized [of _ a b]) auto
  with Commit show ?thesis by (simp add: commitArguments_def)
qed

lemma addBoolArgument_bool:
  "variantType v = TBool \<Longrightarrow> \<exists>s'. addBoolArgument v name s = Inr s'"
  by (cases v) (simp_all add: addBoolArgument_def)

lemma addRevisionArgument_string:
  "variantType v = TString \<Longrightarrow> \<exists>s'. addRevisionArgument v s = Inr s'"
  by (cases v) (simp_all add: addRevisionArgument_def)

lemma cloneOption_tagged:
  "k \<in> recognized (Clone a b) \<Longrightarrow> expectedTag k = Some (variantType v) \<Longrightarrow>
   \<exists>s'. cloneOption k v s = Inr s'"
  by (cases k) (auto simp: cloneOption_def addBoolArgument_bool addRevisionArgument_string)

lemma commonOption_tagged:
  "expectedTag k = Some (variantType v) \<Longrightarrow> \<exists>s'. commonOption k v s = Inr s'"
  by (cases k) (auto simp: commonOption_def addBoolArgument_bool addRevisionArgument_string)

lemma pullOption_tagged:
  "k \<in> recognized (Pull a) \<Longrightarrow> expectedTag k = Some (variantType v) \<Longrightarrow>
   \<exists>s'. pullOption k v s = Inr s'"
  by (cases k) (auto simp: pullOption_def addBoolArgument_bool)

lemma pushOption_tagged:
  "k \<in> recognized (Push a) \<Longrightarrow> expectedTag k = Some (variantType v) \<Longrightarrow>
   \<exists>s'. pushOption k v s = Inr s'"
  by (cases k) (auto simp: pushOption_def addBoolArgument_bool)

lemma commitOption_tagged:
  "k \<in> recognized (Commit a b) \<Longrightarrow> expectedTag k = Some (variantType v) \<Longrightarrow>
   \<exists>s'. commitOption k v s = Inr s'"
  by (cases k; cases v) (auto simp: commitOption_def addBoolArgument_def)

lemma tagged_succeeds:
  assumes "\<forall>kv \<in> set extraOptions.
             fst kv \<in> recognized operation \<and> expectedTag (fst kv) = Some (variantType (snd kv))"
  shows "\<exists>args. buildArguments operation extraOptions = Inr args"
proof -
  have tagged: "k \<in> recognized operation \<and>
                expectedTag k = Some (variantType (optionValue extraOptions k))"
    if "k \<in> set (keys extraOptions)" for k
    using assms optionValue_in_set [OF that] by fastforce
  have common: "\<exists>s'. commonPullOrPushArguments extraOptions = Inr s'"
    unfolding commonPullOrPushArguments_def
    by (intro foreach_succeeds commonOption_tagged) (use tagged in blast)
  show ?thesis
  proof (cases operation)
    case (Clone a b)
    have "\<exists>s'. foreach (keys extraOptions)
        (\<lambda>k. cloneOption k (optionValue extraOptions k)) [] = Inr s'"
      by (intro foreach_succeeds cloneOption_tagged [of _ a b]) (use tagged Clone in auto)
    with Clone show ?thesis by (auto simp: cloneArguments_def)
  next
    case (Pull a)
    have "\<exists>s'. foreach (keys extraOptions)
        (\<lambda>k. pullOption k (optionValue extraOptions k)) s = Inr s'" for s
      by (intro foreach_succeeds pullOption_tagged [of _ a]) (use tagged Pull in auto)
    moreover from common obtain c where "commonPullOrPushArguments extraOptions = Inr c" ..
    ultimately obtain s' where "foreach (keys extraOptions)
        (\<lambda>k. pullOption k (optionValue extraOptions k)) c = Inr s'" by blast
    with Pull \<open>commonPullOrPushArguments extraOptions = Inr c\<close> show ?thesis
      by (simp add: pullArguments_def)
  next
    case (Push a)
    have "\<exists>s'. foreach (keys extraOptions)
        (\<lambda>k. pushOption k (optionValue extraOptions k)) s = Inr s'" for s
      by (intro foreach_succeeds pushOption_tagged [of _ a]) (use tagged Push in auto)
    moreover from common obtain c where "commonPullOrPushArguments extraOptions = Inr c" ..
    ultimately obtain s' where "foreach (keys extraOptions)
        (\<lambda>k. pushOption k (optionValue extraOptions k)) c = Inr s'" by blast
    with Push \<open>commonPullOrPushArguments extraOptions = Inr c\<close> show ?thesis
      by (simp add: pushArguments_def)
  next
    case (Commit a b)
    have "\<exists>s'. foreach (keys extraOptions)
        (\<lambda>k. commitOption k (optionValue extraOptions k)) [] = Inr s'"
      by (intro foreach_succeeds commitOption_tagged [of _ a b]) (use tagged Commit in auto)
    with Commit show ?thesis by (auto simp: commitArguments_def)
  qed
qed

text \<open>
  Claim C8. For each of clone, pull, push and commit: when the option table holds an
  option id that the operation does not recognize, the builder ends in a failed
  assertion; when every entry of the table has a recognized option id and a value of
  the kind that id expects, the builder returns an argument list and no assertion
  fails.
\<close>

theorem unrecognized_option_asserts:
  "((\<exists>k \<in> set (keys extraOptions). k \<notin> recognized operation) \<longrightarrow>
      buildArguments operation extraOptions = Inl AssertionFailure) \<and>
   ((\<forall>kv \<in> set extraOptions.
       fst kv \<in> recognized operation \<and> expectedTag (fst kv) = Some (variantType (snd kv))) \<longrightarrow>
      (\<exists>args. buildArguments operation extraOptions = Inr args))"
  using unrecognized_fails tagged_succeeds by blast

theorem unrecognized_option_asserts_witness:
  "pullArguments ''lp:trunk''
     [(RememberPullOrPushOptionId, VBool True), (CreatePrefixPushOptionId, VBool True)] =
     Inl AssertionFailure \<and>
   (\<exists>args. pushArguments ''lp:trunk''
     [(RememberPullOrPushOptionId, VBool True), (CreatePrefixPushOptionId, VBool True)] =
     Inr args)"
  using unrecognized_option_asserts
      [of "[(RememberPullOrPushOptionId, VBool True), (CreatePrefixPushOptionId, VBool True)]"
          "Pull ''lp:trunk''"]
    unrecognized_option_asserts
      [of "[(RememberPullOrPushOptionId, VBool True), (CreatePrefixPushOptionId, VBool True)]"
          "Push ''lp:trunk''"]
  by (simp add: keys_def)

section \<open>Properties of the status line parser\<close>

text \<open>
  Claim C2. For a non-empty line the state that \<open>parseStatusLine\<close> returns is decoded
  from position 0 as the version flag; from length 2 on a content flag at position 1
  replaces it, and from length 3 on a star at position 2 replaces both with
  \<open>ExecuteBitChanged\<close>. The line \<open>+N  file.txt\<close> gives the state \<open>Created\<close> and the
  path \<open>file.txt\<close>.
\<close>

theorem parseStatusLine_state:
  "(line \<noteq> [] \<longrightarrow> fst (parseStatusLine line) = decodeFlags line) \<and>
   parseStatusLine ''+N  file.txt'' = (''Created'', ''file.txt'')"
proof
  show "line \<noteq> [] \<longrightarrow> fst (parseStatusLine line) = decodeFlags line"
    by (simp add: parseStatusLine_def decodeFlags_def versionFlag_def contentFlag_def Let_def)
  show "parseStatusLine ''+N  file.txt'' = (''Created'', ''file.txt'')"
    by (simp add: parseStatusLine_def mid_def)
qed

theorem parseStatusLine_state_witness:
  "fst (parseStatusLine ''-D* gone.c'') = ''ExecuteBitChanged'' \<and>
   decodeFlags ''-D* gone.c'' = ''ExecuteBitChanged''"
  using parseStatusLine_state [of "''-D* gone.c''"]
  by (simp add: decodeFlags_def)

text \<open>
  Claim C3, as the specification states it, has the line made of a question mark, four
  blanks and \<open>unknown.txt\<close> yield the path \<open>unknown.txt\<close>. The path starts at index 4,
  which is the fourth blank.
\<close>

theorem parseStatusLine_path_counterexample:
  "parseStatusLine ''?    unknown.txt'' \<noteq> (''Unknown'', ''unknown.txt'')"
  by (simp add: parseStatusLine_def mid_def)

text \<open>
  Claim C3, amended. For a non-empty line the path that \<open>parseStatusLine\<close> returns is
  the line from index 4 on, whatever the flags are. The line made of a question mark,
  four blanks and \<open>unknown.txt\<close> gives the state \<open>Unknown\<close> and the path made of one
  blank and \<open>unknown.txt\<close>. The empty line gives the empty state and the empty path.
\<close>

theorem parseStatusLine_path:
  "(line \<noteq> [] \<longrightarrow> snd (parseStatusLine line) = drop 4 line) \<and>
   parseStatusLine ''?    unknown.txt'' = (''Unknown'', '' unknown.txt'') \<and>
   parseStatusLine [] = ([], [])"
  by (simp add: parseStatusLine_def mid_def Let_def)

theorem parseStatusLine_path_witness:
  "snd (parseStatusLine ''?   unknown.txt'') = ''unknown.txt''"
  using parseStatusLine_path [of "''?   unknown.txt''"] by simp

section \<open>Properties of the branch query\<close>














lemma matchHere_texts:
  "matchHere rx s = Some ws \<Longrightarrow>
   length ws = length rx \<and> (\<forall>(i, w) \<in> set (zip rx ws). nonEmptyItem i \<longrightarrow> w \<noteq> [])"
proof (induction rx s arbitrary: ws rule: matchHere.induct)
  case (9 i r s)
  then have m: "matchHere (i # r) s = Some ws" by simp
  from "9.IH" [OF m] obtain w ws' where ws: "ws = w # ws'"
    by (cases ws) auto
  with "9.IH" [OF m] show ?case by auto
qed (auto split: if_splits option.splits list.splits)

lemma cap1_nonempty:
  assumes m: "matchHere rx s = Some ws"
    and j: "j < length rx" and g: "isGroup (rx ! j)" and n: "nonEmptyItem (rx ! j)"
  shows "cap1 rx ws \<noteq> []"
proof -
  from matchHere_texts [OF m] have len: "length ws = length rx"
    and texts: "\<forall>(i, w) \<in> set (zip rx ws). nonEmptyItem i \<longrightarrow> w \<noteq> []" by auto
  from j len have mem: "(rx ! j, ws ! j) \<in> set (zip rx ws)"
    by (auto simp: in_set_zip)
  with texts n have "ws ! j \<noteq> []" by auto
  moreover from mem g have "ws ! j \<in> set (map snd (filter (\<lambda>(i, w). isGroup i) (zip rx ws)))"
    by force
  ultimately show ?thesis
    unfolding cap1_def by (auto simp del: set_map)
qed

lemma indexIn_matchHere:
  "indexIn rx s = Some (i, ws) \<Longrightarrow> \<exists>s'. matchHere rx s' = Some ws"
  by (induction s arbitrary: i) (auto split: option.splits)

lemma locationValue_nonempty: "locationValue line = Some v \<Longrightarrow> v \<noteq> []"
proof -
  assume "locationValue line = Some v"
  then obtain i ws where ix: "indexIn branchLocationRx line = Some (i, ws)"
    and v: "v = cap1 branchLocationRx ws"
    by (auto simp: locationValue_def)
  from indexIn_matchHere [OF ix] obtain s' where "matchHere branchLocationRx s' = Some ws" ..
  then have "cap1 branchLocationRx ws \<noteq> []"
    by (rule cap1_nonempty [where j = 17]) (simp_all add: branchLocationRx_def literal_def)
  with v show ?thesis by simp
qed

lemma boundValue_nonempty: "boundValue line = Some v \<Longrightarrow> v \<noteq> []"
proof -
  assume "boundValue line = Some v"
  then obtain i ws where ix: "indexIn isBranchBoundRx line = Some (i, ws)"
    and v: "v = cap1 isBranchBoundRx ws"
    by (auto simp: boundValue_def split: if_splits)
  from indexIn_matchHere [OF ix] obtain s' where "matchHere isBranchBoundRx s' = Some ws" ..
  then have "cap1 isBranchBoundRx ws \<noteq> []"
    by (rule cap1_nonempty [where j = 8]) (simp_all add: isBranchBoundRx_def literal_def)
  with v show ?thesis by simp
qed

lemma lastValue_Nil: "lastValue d f [] = d"
  by (simp add: lastValue_def)

lemma lastValue_Cons:
  "lastValue d f (x # ls) = lastValue (case f x of Some v \<Rightarrow> v | None \<Rightarrow> d) f ls"
  by (cases "f x"; cases "rev (List.map_filter f ls)")
     (simp_all add: lastValue_def map_filter_simps)

lemma scanLine_values:
  "scanLine line (l0, b0) =
     (case locationValue line of Some v \<Rightarrow> v | None \<Rightarrow> l0,
      case boundValue line of Some v \<Rightarrow> v | None \<Rightarrow> b0)"
  by (auto simp: scanLine_def locationValue_def boundValue_def split: option.splits)

lemma scanLoop_reads:
  "\<exists>rd. content = rd @ fst (scanLoop content (l0, b0)) \<and>
        snd (scanLoop content (l0, b0)) =
          (lastValue l0 locationValue rd, lastValue b0 boundValue rd) \<and>
        (fst (scanLoop content (l0, b0)) \<noteq> [] \<longrightarrow>
           lastValue l0 locationValue rd \<noteq> [] \<and> lastValue b0 boundValue rd \<noteq> []) \<and>
        (\<forall>n < length rd. lastValue l0 locationValue (take n rd) = [] \<or>
                          lastValue b0 boundValue (take n rd) = [])"
proof (induction content arbitrary: l0 b0)
  case Nil
  show ?case by (simp add: lastValue_Nil)
next
  case (Cons line ts)
  show ?case
  proof (cases "l0 = [] \<or> b0 = []")
    case False
    then show ?thesis
      by (intro exI [of _ "[]"]) (simp add: lastValue_Nil)
  next
    case True
    define l1 where "l1 = (case locationValue line of Some v \<Rightarrow> v | None \<Rightarrow> l0)"
    define b1 where "b1 = (case boundValue line of Some v \<Rightarrow> v | None \<Rightarrow> b0)"
    from True have step: "scanLoop (line # ts) (l0, b0) = scanLoop ts (l1, b1)"
      by (auto simp: scanLine_values l1_def b1_def)
    from Cons.IH [of l1 b1] obtain rd where rd:
      "ts = rd @ fst (scanLoop ts (l1, b1))"
      "snd (scanLoop ts (l1, b1)) = (lastValue l1 locationValue rd, lastValue b1 boundValue rd)"
      "fst (scanLoop ts (l1, b1)) \<noteq> [] \<longrightarrow>
         lastValue l1 locationValue rd \<noteq> [] \<and> lastValue b1 boundValue rd \<noteq> []"
      "\<forall>n < length rd. lastValue l1 locationValue (take n rd) = [] \<or>
                        lastValue b1 boundValue (take n rd) = []"
      by blast
    have late: "lastValue l0 locationValue (take n (line # rd)) = [] \<or>
                lastValue b0 boundValue (take n (line # rd)) = []"
      if "n < length (line # rd)" for n
    proof (cases n)
      case 0
      with True show ?thesis by (simp add: lastValue_Nil)
    next
      case (Suc m)
      with that rd(4) show ?thesis
        by (simp add: lastValue_Cons l1_def b1_def)
    qed
    show ?thesis
    proof (intro exI [of _ "line # rd"] conjI)
      show "line # ts = (line # rd) @ fst (scanLoop (line # ts) (l0, b0))"
        using rd(1) step by simp
      show "snd (scanLoop (line # ts) (l0, b0)) =
            (lastValue l0 locationValue (line # rd), lastValue b0 boundValue (line # rd))"
        using rd(2) step by (simp add: lastValue_Cons l1_def b1_def)
      show "fst (scanLoop (line # ts) (l0, b0)) \<noteq> [] \<longrightarrow>
            lastValue l0 locationValue (line # rd) \<noteq> [] \<and>
            lastValue b0 boundValue (line # rd) \<noteq> []"
        using rd(3) step by (simp add: lastValue_Cons l1_def b1_def)
      show "\<forall>n < length (line # rd).
              lastValue l0 locationValue (take n (line # rd)) = [] \<or>
              lastValue b0 boundValue (take n (line # rd)) = []"
        using late by blast
    qed
  qed
qed

lemma map_filter_values: "v \<in> set (List.map_filter f ls) \<Longrightarrow> \<exists>l. f l = Some v"
  by (auto simp: List.map_filter_def)

lemma lastValue_found:
  assumes "\<And>l v. f l = Some v \<Longrightarrow> v \<noteq> []"
  shows "lastValue [] f ls \<noteq> [] \<longleftrightarrow> found f ls"
proof (cases "rev (List.map_filter f ls)")
  case Nil
  then show ?thesis by (simp add: lastValue_def found_def)
next
  case (Cons v vs)
  then have "v \<in> set (List.map_filter f ls)"
    by (metis list.set_intros(1) set_rev)
  then obtain l where "f l = Some v" by (auto dest: map_filter_values)
  with assms have "v \<noteq> []" by blast
  with Cons show ?thesis by (auto simp: lastValue_def found_def)
qed

lemma read_prefix: "content = rd @ rest \<Longrightarrow> rd = take (length content - length rest) content"
  by simp

text \<open>
  Claim C4, as the specification states it, lets the first matching line of each key
  determine the value. With two \<open>bound_location\<close> lines before the \<open>bound\<close> line the
  scan ends with the value of the second one.
\<close>

theorem scanLoop_first_match_counterexample:
  "scannedLocation [''bound_location = A'', ''bound_location = B'', ''bound = True''] \<noteq>
   firstValue locationValue
     [''bound_location = A'', ''bound_location = B'', ''bound = True'']"
  by code_simp

text \<open>
  Claim C4, amended. For every list of lines the scan reads a prefix of it, line by
  line, and stops at the end of the list or as soon as a \<open>bound_location\<close> line and a
  \<open>bound\<close> line have both been read, not later and not earlier. Each of the two
  values is that of the last matching line among the lines read, so a key that occurs
  again before the other key has been found replaces the earlier value; the lines
  after the stop are not looked at.
\<close>

theorem scanLoop_last_match:
  "\<exists>rd. content = rd @ fst (scanLoop content ([], [])) \<and>
        scannedLocation content = lastValue [] locationValue rd \<and>
        scannedBound content = lastValue [] boundValue rd \<and>
        (fst (scanLoop content ([], [])) \<noteq> [] \<longrightarrow>
           found locationValue rd \<and> found boundValue rd) \<and>
        (\<forall>n < length rd. \<not> (found locationValue (take n rd) \<and>
                               found boundValue (take n rd)))"
proof -
  from scanLoop_reads [of content "[]" "[]"] obtain rd where rd:
    "content = rd @ fst (scanLoop content ([], []))"
    "snd (scanLoop content ([], [])) =
       (lastValue [] locationValue rd, lastValue [] boundValue rd)"
    "fst (scanLoop content ([], [])) \<noteq> [] \<longrightarrow>
       lastValue [] locationValue rd \<noteq> [] \<and> lastValue [] boundValue rd \<noteq> []"
    "\<forall>n < length rd. lastValue [] locationValue (take n rd) = [] \<or>
                      lastValue [] boundValue (take n rd) = []"
    by blast
  have lf: "lastValue [] locationValue ls \<noteq> [] \<longleftrightarrow> found locationValue ls" for ls
    by (rule lastValue_found) (rule locationValue_nonempty)
  have bf: "lastValue [] boundValue ls \<noteq> [] \<longleftrightarrow> found boundValue ls" for ls
    by (rule lastValue_found) (rule boundValue_nonempty)
  show ?thesis
  proof (intro exI [of _ rd] conjI)
    show "content = rd @ fst (scanLoop content ([], []))" by (rule rd(1))
    show "scannedLocation content = lastValue [] locationValue rd"
      using rd(2) by (simp add: scannedLocation_def)
    show "scannedBound content = lastValue [] boundValue rd"
      using rd(2) by (simp add: scannedBound_def)
    show "fst (scanLoop content ([], [])) \<noteq> [] \<longrightarrow>
            found locationValue rd \<and> found boundValue rd"
      using rd(3) lf bf by blast
    show "\<forall>n < length rd. \<not> (found locationValue (take n rd) \<and>
                                found boundValue (take n rd))"
      using rd(4) lf bf by blast
  qed
qed

theorem scanLoop_last_match_witness:
  "fst (scanLoop [''bound_location = A'', ''bound_location = B'', ''bound = True'',
                  ''bound = False'', ''bound_location = C''] ([], [])) =
     [''bound = False'', ''bound_location = C''] \<and>
   scannedLocation [''bound_location = A'', ''bound_location = B'', ''bound = True'',
                    ''bound = False'', ''bound_location = C''] =
     lastValue [] locationValue
       [''bound_location = A'', ''bound_location = B'', ''bound = True''] \<and>
   scannedLocation [''bound_location = A'', ''bound_location = B'', ''bound = True'',
                    ''bound = False'', ''bound_location = C''] = ''B'' \<and>
   scannedBound [''bound_location = A'', ''bound_location = B'', ''bound = True'',
                 ''bound = False'', ''bound_location = C''] = ''True'' \<and>
   found locationValue [''bound_location = A'', ''bound_location = B'', ''bound = True''] \<and>
   found boundValue [''bound_location = A'', ''bound_location = B'', ''bound = True''] \<and>
   \<not> (found locationValue [''bound_location = A'', ''bound_location = B''] \<and>
      found boundValue [''bound_location = A'', ''bound_location = B''])"
proof -
  let ?C = "[''bound_location = A'', ''bound_location = B'', ''bound = True'',
             ''bound = False'', ''bound_location = C'']"
  have rest: "fst (scanLoop ?C ([], [])) = [''bound = False'', ''bound_location = C'']"
    by code_simp
  have loc: "scannedLocation ?C = ''B''" by code_simp
  have bnd: "scannedBound ?C = ''True''" by code_simp
  from scanLoop_last_match [of ?C] obtain rd where rd:
    "?C = rd @ fst (scanLoop ?C ([], []))"
    "scannedLocation ?C = lastValue [] locationValue rd"
    "fst (scanLoop ?C ([], [])) \<noteq> [] \<longrightarrow> found locationValue rd \<and> found boundValue rd"
    "\<forall>n < length rd. \<not> (found locationValue (take n rd) \<and> found boundValue (take n rd))"
    by blast
  from rd(1) have "rd = take (length ?C - length (fst (scanLoop ?C ([], [])))) ?C"
    by (rule read_prefix)
  then have rd_eq: "rd = [''bound_location = A'', ''bound_location = B'', ''bound = True'']"
    by (simp only: rest) simp
  from rd(4) [rule_format, of 2] rd_eq
  have "\<not> (found locationValue (take 2 rd) \<and> found boundValue (take 2 rd))"
    by simp
  then have early: "\<not> (found locationValue [''bound_location = A'', ''bound_location = B''] \<and>
      found boundValue [''bound_location = A'', ''bound_location = B''])"
    by (simp add: rd_eq)
  from rd(3) have "found locationValue rd \<and> found boundValue rd"
    by (simp only: rest) simp
  with rd(2) rd_eq rest loc bnd early show ?thesis
    by (simp del: scanLoop.simps)
qed

section \<open>Properties of the make step\<close>

text \<open>
  Claim C7. \<open>effectiveMakeCommand\<close> returns the command override whenever it is not
  empty, whatever the build configuration and the tool chain are. With an empty
  override it returns the make command that the tool chain gives for the environment
  of the build configuration, the step's own or else the target's active one, when
  both exist, and the empty string when there is no build configuration or no tool
  chain.
\<close>

theorem effectiveMakeCommand_cases:
  "(m_makeCommand step \<noteq> [] \<longrightarrow> effectiveMakeCommand step ctx = m_makeCommand step) \<and>
   (m_makeCommand step = [] \<and>
    (buildConfiguration ctx = Some b \<or>
     buildConfiguration ctx = None \<and> activeBuildConfiguration ctx = Some b) \<and>
    toolChain ctx = Some t \<longrightarrow>
      effectiveMakeCommand step ctx = makeCommand t (environment b)) \<and>
   (m_makeCommand step = [] \<and>
    (buildConfiguration ctx = None \<and> activeBuildConfiguration ctx = None \<or>
     toolChain ctx = None) \<longrightarrow>
      effectiveMakeCommand step ctx = [])"
  by (auto simp: effectiveMakeCommand_def Let_def split: option.splits)

theorem effectiveMakeCommand_cases_witness:
  "effectiveMakeCommand
     \<lparr>m_buildTargets = [], m_availableTargets = [], m_makeArguments = [],
      m_makeCommand = ''gmake'', m_clean = False\<rparr>
     \<lparr>buildConfiguration = None, activeBuildConfiguration = None, toolChain = None\<rparr> =
     ''gmake'' \<and>
   effectiveMakeCommand
     \<lparr>m_buildTargets = [], m_availableTargets = [], m_makeArguments = [],
      m_makeCommand = [], m_clean = False\<rparr>
     \<lparr>buildConfiguration = None,
      activeBuildConfiguration = Some \<lparr>environment = [(''MAKE'', ''jom'')]\<rparr>,
      toolChain = Some \<lparr>makeCommand = (\<lambda>env. case map_of env ''MAKE'' of
                                               Some m \<Rightarrow> m | None \<Rightarrow> ''make'')\<rparr>\<rparr> =
     ''jom'' \<and>
   effectiveMakeCommand
     \<lparr>m_buildTargets = [], m_availableTargets = [], m_makeArguments = [],
      m_makeCommand = [], m_clean = False\<rparr>
     \<lparr>buildConfiguration = Some \<lparr>environment = []\<rparr>, activeBuildConfiguration = None,
      toolChain = None\<rparr> = []"
  using effectiveMakeCommand_cases
      [of "\<lparr>m_buildTargets = [], m_availableTargets = [], m_makeArguments = [],
            m_makeCommand = ''gmake'', m_clean = False\<rparr>"
          "\<lparr>buildConfiguration = None, activeBuildConfiguration = None, toolChain = None\<rparr>"]
    effectiveMakeCommand_cases
      [of "\<lparr>m_buildTargets = [], m_availableTargets = [], m_makeArguments = [],
            m_makeCommand = [], m_clean = False\<rparr>"
          "\<lparr>buildConfiguration = None,
            activeBuildConfiguration = Some \<lparr>environment = [(''MAKE'', ''jom'')]\<rparr>,
            toolChain = Some \<lparr>makeCommand = (\<lambda>env. case map_of env ''MAKE'' of
                                               Some m \<Rightarrow> m | None \<Rightarrow> ''make'')\<rparr>\<rparr>"
          "\<lparr>environment = [(''MAKE'', ''jom'')]\<rparr>"
          "\<lparr>makeCommand = (\<lambda>env. case map_of env ''MAKE'' of
                                               Some m \<Rightarrow> m | None \<Rightarrow> ''make'')\<rparr>"]
    effectiveMakeCommand_cases
      [of "\<lparr>m_buildTargets = [], m_availableTargets = [], m_makeArguments = [],
            m_makeCommand = [], m_clean = False\<rparr>"
          "\<lparr>buildConfiguration = Some \<lparr>environment = []\<rparr>, activeBuildConfiguration = None,
            toolChain = None\<rparr>"]
  by simp

lemma filter_absent: "t \<notin> set xs \<Longrightarrow> filter (\<lambda>x. x \<noteq> t) xs = xs"
  by (induction xs) auto

lemma removeOne_distinct_filter:
  "distinct xs \<Longrightarrow> removeOne t xs = filter (\<lambda>x. x \<noteq> t) xs"
  by (induction xs) (auto simp: filter_absent)

text \<open>
  Claim C10. On a list of build targets without duplicates, \<open>setBuildTarget\<close> leaves a
  list without duplicates that contains the target exactly when the switch is on; the
  other targets keep their places; a target switched on that was absent is appended
  at the end, a target switched off that was present is removed, and the list is
  unchanged when the target already was as requested. \<open>buildsTarget\<close> then returns
  the switch.
\<close>

theorem setBuildTarget_distinct:
  "distinct (m_buildTargets step) \<longrightarrow>
     distinct (m_buildTargets (setBuildTarget target on step)) \<and>
     (target \<in> set (m_buildTargets (setBuildTarget target on step)) \<longleftrightarrow> on) \<and>
     filter (\<lambda>x. x \<noteq> target) (m_buildTargets (setBuildTarget target on step)) =
       filter (\<lambda>x. x \<noteq> target) (m_buildTargets step) \<and>
     (on \<and> target \<notin> set (m_buildTargets step) \<longrightarrow>
        m_buildTargets (setBuildTarget target on step) = m_buildTargets step @ [target]) \<and>
     (\<not> on \<and> target \<in> set (m_buildTargets step) \<longrightarrow>
        m_buildTargets (setBuildTarget target on step) =
          filter (\<lambda>x. x \<noteq> target) (m_buildTargets step)) \<and>
     ((target \<in> set (m_buildTargets step) \<longleftrightarrow> on) \<longrightarrow>
        m_buildTargets (setBuildTarget target on step) = m_buildTargets step) \<and>
     buildsTarget (setBuildTarget target on step) target = on"
  by (auto simp: setBuildTarget_def buildsTarget_def Let_def removeOne_distinct_filter)

theorem setBuildTarget_distinct_witness:
  "m_buildTargets (setBuildTarget ''docs'' True
     \<lparr>m_buildTargets = [''all'', ''install''], m_availableTargets = [],
      m_makeArguments = [], m_makeCommand = [], m_clean = False\<rparr>) =
     [''all'', ''install'', ''docs''] \<and>
   m_buildTargets (setBuildTarget ''all'' False
     \<lparr>m_buildTargets = [''all'', ''install''], m_availableTargets = [],
      m_makeArguments = [], m_makeCommand = [], m_clean = False\<rparr>) = [''install''] \<and>
   buildsTarget (setBuildTarget ''all'' True
     \<lparr>m_buildTargets = [''all'', ''install''], m_availableTargets = [],
      m_makeArguments = [], m_makeCommand = [], m_clean = False\<rparr>) ''all''"
  using setBuildTarget_distinct [of "\<lparr>m_buildTargets = [''all'', ''install''],
      m_availableTargets = [], m_makeArguments = [], m_makeCommand = [], m_clean = False\<rparr>"
      "''docs''" True]
    setBuildTarget_distinct [of "\<lparr>m_buildTargets = [''all'', ''install''],
      m_availableTargets = [], m_makeArguments = [], m_makeCommand = [], m_clean = False\<rparr>"
      "''all''" False]
    setBuildTarget_distinct [of "\<lparr>m_buildTargets = [''all'', ''install''],
      m_availableTargets = [], m_makeArguments = [], m_makeCommand = [], m_clean = False\<rparr>"
      "''all''" True]
  by simp


end
